theory Spec2Isabelle
  imports Complex_Main "HOL-Library.Word"
begin

unbundle bit_operations_syntax

section \<open>Lyon Flood Lab: the scenario model\<close>

text \<open>
  The demo computes with JavaScript numbers. The embedding below reads them as real
  numbers: every formula is the one of the source, evaluated exactly. Theorems are
  therefore statements about the formulas of the program, not about the rounding of
  IEEE doubles.
\<close>

subsection \<open>Mitigation flags and their attenuation\<close>

record mitigation =
  greenRoofs :: bool
  permeable :: bool
  barriers :: bool

text \<open>
  \<^verbatim>\<open>computeMitigationAttenuation(m)\<close>: the accumulator \<^verbatim>\<open>atten\<close> starts at 0, each
  set flag adds its fraction, the result is \<^verbatim>\<open>Math.min(0.35, atten)\<close>.
\<close>

definition computeMitigationAttenuation :: "mitigation \<Rightarrow> real" where
  "computeMitigationAttenuation m =
     (let atten0 = 0;
          atten1 = (if greenRoofs m then atten0 + 0.08 else atten0);
          atten2 = (if permeable m then atten1 + 0.10 else atten1);
          atten3 = (if barriers m then atten2 + 0.12 else atten2)
      in min 0.35 atten3)"

text \<open>The sum of the contributions of the set flags, with no cap (the spec's words).\<close>

definition flag_sum :: "mitigation \<Rightarrow> real" where
  "flag_sum m =
     (if greenRoofs m then 0.08 else 0) + (if permeable m then 0.10 else 0)
       + (if barriers m then 0.12 else 0)"

subsection \<open>Depth at a point\<close>

text \<open>
  \<^verbatim>\<open>Math.hypot(a, b)\<close>, and the centerline of \<^verbatim>\<open>depthAtPoint\<close>, a list of
  \<^verbatim>\<open>[lng, lat]\<close> pairs. A point is the pair \<^verbatim>\<open>[lat, lng]\<close>, as \<^verbatim>\<open>renderBuildings\<close>
  passes it.
\<close>

definition hypot :: "real \<Rightarrow> real \<Rightarrow> real" where
  "hypot a b = sqrt (a\<^sup>2 + b\<^sup>2)"

definition centerline :: "(real \<times> real) list" where
  "centerline = [(4.835, 45.795), (4.835, 45.780), (4.835, 45.765), (4.835, 45.750)]"

text \<open>
  The loop over the centerline. \<^verbatim>\<open>minDist\<close> starts at \<^verbatim>\<open>Infinity\<close>, which is
  \<open>None\<close> here; \<^verbatim>\<open>d < Infinity\<close> holds for every real \<open>d\<close>.
\<close>

fun minDistLoop :: "real \<times> real \<Rightarrow> (real \<times> real) list \<Rightarrow> real option \<Rightarrow> real option" where
  "minDistLoop point [] minDist = minDist"
| "minDistLoop point ((lng, lat) # rest) minDist =
     (let d = hypot (fst point - lat) (snd point - lng)
      in minDistLoop point rest
           (case minDist of None \<Rightarrow> Some d
            | Some md \<Rightarrow> if d < md then Some d else Some md))"

text \<open>
  \<^verbatim>\<open>depthAtPoint(point, levelCm, mitigation)\<close>. With \<^verbatim>\<open>minDist\<close> still infinite the
  source computes \<^verbatim>\<open>Math.max(0, L / 100 - Infinity)\<close>, which is 0.
\<close>

definition depthAtPoint :: "real \<times> real \<Rightarrow> real \<Rightarrow> mitigation \<Rightarrow> real" where
  "depthAtPoint point levelCm m =
     (let attenuation = 1 - computeMitigationAttenuation m;
          L = levelCm * attenuation
      in case minDistLoop point centerline None of
           None \<Rightarrow> 0
         | Some minDist \<Rightarrow> max 0 (L / 100 - minDist * 200))"

text \<open>
  The distance from a point to one vertex of the centerline, the least of these over the
  four vertices, and the point at parameter \<open>t\<close> of the segment from \<open>a\<close> to \<open>b\<close>
  (vertices and segment points are \<^verbatim>\<open>[lng, lat]\<close> pairs, as in the centerline).
\<close>

definition vertexDistance :: "real \<times> real \<Rightarrow> real \<times> real \<Rightarrow> real" where
  "vertexDistance point v = hypot (fst point - snd v) (snd point - fst v)"

definition nearestVertexDistance :: "real \<times> real \<Rightarrow> real" where
  "nearestVertexDistance point = Min (set (map (vertexDistance point) centerline))"

definition along :: "real \<times> real \<Rightarrow> real \<times> real \<Rightarrow> real \<Rightarrow> real \<times> real" where
  "along a b t = (fst a + t * (fst b - fst a), snd a + t * (snd b - snd a))"

subsection \<open>Depth-damage curve\<close>

definition depthDamageRatio :: "real \<Rightarrow> real" where
  "depthDamageRatio depthMeters =
     (let d = max 0 depthMeters;
          ratio = 1 - exp (- d * 0.8)
      in min 0.95 ratio)"

subsection \<open>The aggregate pass\<close>

record building =
  ident :: nat
  lat :: real
  lng :: real
  replacementCost :: real
  isCritical :: bool

text \<open>The three counters of \<^verbatim>\<open>renderBuildings\<close>, written to the KPI fields at its end.\<close>

record kpi =
  affectedCount :: nat
  criticalCount :: nat
  totalDamage :: real

fun renderLoop :: "building list \<Rightarrow> real \<Rightarrow> mitigation \<Rightarrow> kpi \<Rightarrow> kpi" where
  "renderLoop [] levelCm m k = k"
| "renderLoop (b # bs) levelCm m k =
     (let depth = depthAtPoint (lat b, lng b) levelCm m;
          affected = (depth > 0.05);
          ratio = (if affected then depthDamageRatio depth else 0);
          damage = replacementCost b * ratio;
          k1 = k\<lparr>totalDamage := totalDamage k + damage\<rparr>;
          k2 = (if affected then k1\<lparr>affectedCount := affectedCount k1 + 1\<rparr> else k1);
          k3 = (if affected \<and> isCritical b
                then k2\<lparr>criticalCount := criticalCount k2 + 1\<rparr> else k2)
      in renderLoop bs levelCm m k3)"

definition renderBuildings :: "building list \<Rightarrow> real \<Rightarrow> mitigation \<Rightarrow> kpi" where
  "renderBuildings bs levelCm m =
     renderLoop bs levelCm m \<lparr>affectedCount = 0, criticalCount = 0, totalDamage = 0\<rparr>"

text \<open>The aggregate pass in the words of the spec, record by record.\<close>

definition affected_spec :: "real \<Rightarrow> mitigation \<Rightarrow> building \<Rightarrow> bool" where
  "affected_spec levelCm m b = (depthAtPoint (lat b, lng b) levelCm m > 0.05)"

definition damage_spec :: "real \<Rightarrow> mitigation \<Rightarrow> building \<Rightarrow> real" where
  "damage_spec levelCm m b =
     (if affected_spec levelCm m b
      then replacementCost b * depthDamageRatio (depthAtPoint (lat b, lng b) levelCm m)
      else 0)"

section \<open>The seeded generator and the dataset\<close>

text \<open>
  \<^verbatim>\<open>mulberry32(seed)\<close> returns a closure over the counter \<^verbatim>\<open>t\<close>, which starts at
  \<^verbatim>\<open>seed >>> 0\<close>. The model passes the counter explicitly: \<open>mulberry32\<close> gives the
  initial counter and \<open>rand\<close> is one call of the closure, returning the draw and the
  new counter.

  The source adds \<^verbatim>\<open>0x6D2B79F5\<close> to \<^verbatim>\<open>t\<close> as a JavaScript number, without
  wrapping: the counter is a natural number here. Every later use of \<^verbatim>\<open>t\<close> goes
  through \<^verbatim>\<open>^\<close>, \<^verbatim>\<open>>>>\<close>, \<^verbatim>\<open>|\<close> or \<^verbatim>\<open>Math.imul\<close>, which read it modulo
  \<open>2\<^sup>3\<^sup>2\<close>: the 32-bit word \<open>word_of_nat t\<close>. (A double holds the counter exactly below
  \<open>2\<^sup>5\<^sup>3\<close>, that is for more than four million calls; the dataset takes 1600.)
  The seed is a number with an integer value.
\<close>

definition mulberry32 :: "int \<Rightarrow> nat" where
  "mulberry32 seed = nat (seed mod 2 ^ 32)"

definition rand :: "nat \<Rightarrow> real \<times> nat" where
  "rand t0 =
     (let t = t0 + 0x6D2B79F5;
          w = (word_of_nat t :: 32 word);
          r1 = (w XOR drop_bit 15 w) * (1 OR w);
          r2 = r1 XOR (r1 + (r1 XOR drop_bit 7 r1) * (61 OR r1))
      in (real (unat (r2 XOR drop_bit 14 r2)) / 4294967296, t))"

definition lyonCenter :: "real \<times> real" where
  "lyonCenter = (45.764043, 4.835659)"

text \<open>
  The callback of \<^verbatim>\<open>Array.from({ length: 400 }).map((_, i) => ...)\<close> for index \<open>i\<close>,
  with the calls of \<^verbatim>\<open>rand()\<close> in the order in which the source evaluates them.
\<close>

definition makeBuilding :: "nat \<Rightarrow> nat \<Rightarrow> building \<times> nat" where
  "makeBuilding i t0 =
     (let (u1, t1) = rand t0;
          latJitter = (u1 - 0.5) * 0.05;
          (u2, t2) = rand t1;
          lngJitter = (u2 - 0.5) * 0.08;
          (u3, t3) = rand t2;
          (u4, t4) = rand t3
      in (\<lparr>ident = i + 1,
           lat = fst lyonCenter + latJitter,
           lng = snd lyonCenter + lngJitter,
           replacementCost = 100000 + u3 * 900000,
           isCritical = (u4 < 0.06)\<rparr>, t4))"

fun mapBuildings :: "nat list \<Rightarrow> nat \<Rightarrow> building list \<times> nat" where
  "mapBuildings [] t = ([], t)"
| "mapBuildings (i # is) t =
     (let (b, t1) = makeBuilding i t;
          (bs, t2) = mapBuildings is t1
      in (b # bs, t2))"

text \<open>The dataset, together with the counter the generator is left with.\<close>

definition buildingsAndCounter :: "int \<Rightarrow> building list \<times> nat" where
  "buildingsAndCounter seed = mapBuildings [0..<400] (mulberry32 seed)"

definition buildings :: "int \<Rightarrow> building list" where
  "buildings seed = fst (buildingsAndCounter seed)"

text \<open>
  The counter after \<open>k\<close> calls of the generator, and the \<open>k\<close>-th draw of the stream of
  a seed, counted from 0.
\<close>

definition counterAfter :: "nat \<Rightarrow> nat \<Rightarrow> nat" where
  "counterAfter k t = ((\<lambda>t. snd (rand t)) ^^ k) t"

definition draw :: "int \<Rightarrow> nat \<Rightarrow> real" where
  "draw seed k = fst (rand (counterAfter k (mulberry32 seed)))"

section \<open>The state codec\<close>

text \<open>
  Level and seed are numbers with integer values (a slider position in centimetres, an
  integer seed): the model's numbers are the integers and \<^verbatim>\<open>NaN\<close>.
\<close>

datatype number = NaN | Num int

subsection \<open>\<^verbatim>\<open>String(n)\<close> and \<^verbatim>\<open>Number(s)\<close>\<close>


definition isDigit :: "char \<Rightarrow> bool" where
  "isDigit c = (48 \<le> (of_char c :: nat) \<and> (of_char c :: nat) \<le> 57)"

definition digitValue :: "char \<Rightarrow> nat" where
  "digitValue c = of_char c - 48"




definition digitsValue :: "string \<Rightarrow> nat" where
  "digitsValue ds = foldl (\<lambda>acc c. 10 * acc + digitValue c) 0 ds"

definition isDigits :: "string \<Rightarrow> bool" where
  "isDigits ds = (ds \<noteq> [] \<and> list_all isDigit ds)"

text \<open>
  \<^verbatim>\<open>Number(v)\<close> for the result \<open>v\<close> of \<^verbatim>\<open>URLSearchParams.get\<close>: \<^verbatim>\<open>null\<close> (\<open>None\<close>)
  and the empty string are 0, a decimal integer literal with an optional sign is its
  value, text that is no numeric literal is \<^verbatim>\<open>NaN\<close>. Literals of the platform that
  denote other numbers or are written otherwise (fractions, exponents, radix prefixes,
  \<^verbatim>\<open>Infinity\<close>, surrounding white space) are outside the model's numbers; no theorem
  below applies \<open>Number\<close> to one.
\<close>

fun Number :: "string option \<Rightarrow> number" where
  "Number None = Num 0"
| "Number (Some []) = Num 0"
| "Number (Some (c # cs)) =
     (if c = CHR ''-'' then (if isDigits cs then Num (- int (digitsValue cs)) else NaN)
      else if c = CHR ''+'' then (if isDigits cs then Num (int (digitsValue cs)) else NaN)
      else if isDigits (c # cs) then Num (int (digitsValue (c # cs))) else NaN)"

text \<open>\<^verbatim>\<open>x || d\<close> on numbers: 0 and \<^verbatim>\<open>NaN\<close> are falsy.\<close>

fun orDefault :: "number \<Rightarrow> int \<Rightarrow> int" where
  "orDefault NaN d = d"
| "orDefault (Num n) d = (if n = 0 then d else n)"

subsection \<open>\<^verbatim>\<open>URLSearchParams\<close>\<close>

text \<open>
  The list of name-value pairs of a \<^verbatim>\<open>URLSearchParams\<close> object; \<^verbatim>\<open>get\<close> returns the
  first value of a name or \<^verbatim>\<open>null\<close>; \<^verbatim>\<open>set\<close> overwrites the first pair of the name
  and removes the others, or appends a pair.
\<close>

type_synonym params = "(string \<times> string) list"

fun getParam :: "params \<Rightarrow> string \<Rightarrow> string option" where
  "getParam [] name = None"
| "getParam ((n, v) # ps) name = (if n = name then Some v else getParam ps name)"








text \<open>
  \<^verbatim>\<open>new URLSearchParams(search)\<close>: a leading \<^verbatim>\<open>?\<close> is dropped, the rest is split at
  every \<^verbatim>\<open>&\<close>, empty pieces are skipped, every piece is split at its first \<^verbatim>\<open>=\<close>
  (the value is empty when there is none), \<^verbatim>\<open>+\<close> becomes a space and percent escapes
  are decoded.
\<close>

fun splitOn :: "char \<Rightarrow> string \<Rightarrow> string list" where
  "splitOn c [] = [] # []"
| "splitOn c (x # xs) =
     (if x = c then [] # splitOn c xs
      else (case splitOn c xs of [] \<Rightarrow> [x] # [] | y # ys \<Rightarrow> (x # y) # ys))"

definition isHex :: "char \<Rightarrow> bool" where
  "isHex c =
     (let n = (of_char c :: nat)
      in (48 \<le> n \<and> n \<le> 57) \<or> (65 \<le> n \<and> n \<le> 70) \<or> (97 \<le> n \<and> n \<le> 102))"

definition hexValue :: "char \<Rightarrow> nat" where
  "hexValue c =
     (let n = (of_char c :: nat)
      in if n \<le> 57 then n - 48 else if n \<le> 70 then n - 55 else n - 87)"

fun percentDecode :: "string \<Rightarrow> string" where
  "percentDecode (c # h1 # h2 # rest) =
     (if c = CHR ''%'' \<and> isHex h1 \<and> isHex h2
      then char_of (16 * hexValue h1 + hexValue h2) # percentDecode rest
      else c # percentDecode (h1 # h2 # rest))"
| "percentDecode (c # rest) = c # percentDecode rest"
| "percentDecode [] = []"

definition urldecode :: "string \<Rightarrow> string" where
  "urldecode s = percentDecode (map (\<lambda>c. if c = CHR ''+'' then CHR '' '' else c) s)"

definition parsePair :: "string \<Rightarrow> string \<times> string" where
  "parsePair piece =
     (urldecode (takeWhile (\<lambda>c. c \<noteq> CHR ''='') piece),
      urldecode (drop 1 (dropWhile (\<lambda>c. c \<noteq> CHR ''='') piece)))"

definition URLSearchParams :: "string \<Rightarrow> params" where
  "URLSearchParams search =
     (let query = (case search of c # rest \<Rightarrow> if c = CHR ''?'' then rest else search
                   | [] \<Rightarrow> [])
      in map parsePair (filter (\<lambda>piece. piece \<noteq> []) (splitOn (CHR ''&'') query)))"

subsection \<open>Encoding and decoding the state\<close>



definition readURL :: "string \<Rightarrow> int \<times> mitigation" where
  "readURL search =
     (let p = URLSearchParams search;
          level = orDefault (Number (getParam p ''level'')) 120;
          m = \<lparr>greenRoofs = (getParam p ''gr'' = Some ''1''),
               permeable = (getParam p ''pp'' = Some ''1''),
               barriers = (getParam p ''tb'' = Some ''1'')\<rparr>
      in (level, m))"

text \<open>The constant \<^verbatim>\<open>seed\<close>, read from \<^verbatim>\<open>location.search\<close> when the script loads.\<close>

definition seedConst :: "string \<Rightarrow> int" where
  "seedConst search = orDefault (Number (getParam (URLSearchParams search) ''seed'')) 1337"






section \<open>Properties of the attenuation\<close>

lemma attenuation_is_flag_sum: "computeMitigationAttenuation m = min 0.35 (flag_sum m)"
  by (simp add: computeMitigationAttenuation_def flag_sum_def)

lemma flag_sum_bounds: "0 \<le> flag_sum m \<and> flag_sum m \<le> 0.30"
  by (simp add: flag_sum_def)

lemma flag_sum_mono:
  "(greenRoofs m \<longrightarrow> greenRoofs m') \<Longrightarrow> (permeable m \<longrightarrow> permeable m') \<Longrightarrow>
   (barriers m \<longrightarrow> barriers m') \<Longrightarrow> flag_sum m \<le> flag_sum m'"
  by (simp add: flag_sum_def)

lemma attenuation_eq_flag_sum: "computeMitigationAttenuation m = flag_sum m"
  using flag_sum_bounds [of m] by (simp add: attenuation_is_flag_sum)

lemma attenuation_mono:
  assumes "greenRoofs m \<longrightarrow> greenRoofs m'" "permeable m \<longrightarrow> permeable m'"
    "barriers m \<longrightarrow> barriers m'"
  shows "computeMitigationAttenuation m \<le> computeMitigationAttenuation m'"
  unfolding attenuation_eq_flag_sum by (rule flag_sum_mono [OF assms])

text \<open>
  C7. For every mitigation state the attenuation is the sum of the contributions of the
  set flags (0.08 for green roofs, 0.10 for permeable pavement, 0.12 for barriers) capped
  at 0.35; it lies between 0 and 0.35; and it is monotone: a state that has every flag
  of another state set has at least its attenuation.
\<close>

theorem attenuation_capped_sum_monotone:
  "computeMitigationAttenuation m = min 0.35 (flag_sum m)
   \<and> 0 \<le> computeMitigationAttenuation m \<and> computeMitigationAttenuation m \<le> 0.35
   \<and> ((greenRoofs m \<longrightarrow> greenRoofs m') \<and> (permeable m \<longrightarrow> permeable m')
        \<and> (barriers m \<longrightarrow> barriers m')
       \<longrightarrow> computeMitigationAttenuation m \<le> computeMitigationAttenuation m')"
proof -
  have "0 \<le> min 0.35 (flag_sum m)" using flag_sum_bounds [of m] by simp
  moreover have "min 0.35 (flag_sum m) \<le> 0.35" by simp
  moreover have "min 0.35 (flag_sum m) \<le> min 0.35 (flag_sum m')"
    if "greenRoofs m \<longrightarrow> greenRoofs m'" "permeable m \<longrightarrow> permeable m'"
       "barriers m \<longrightarrow> barriers m'"
    by (rule min.mono [OF order_refl flag_sum_mono [OF that]])
  ultimately show ?thesis unfolding attenuation_is_flag_sum by blast
qed

theorem attenuation_capped_sum_monotone_witness:
  "computeMitigationAttenuation \<lparr>greenRoofs = True, permeable = False, barriers = False\<rparr> = 0.08
   \<and> computeMitigationAttenuation \<lparr>greenRoofs = True, permeable = False, barriers = True\<rparr> = 0.20
   \<and> computeMitigationAttenuation \<lparr>greenRoofs = True, permeable = False, barriers = False\<rparr>
       \<le> computeMitigationAttenuation \<lparr>greenRoofs = True, permeable = False, barriers = True\<rparr>"
  using attenuation_capped_sum_monotone
    [of "\<lparr>greenRoofs = True, permeable = False, barriers = False\<rparr>"
      "\<lparr>greenRoofs = True, permeable = False, barriers = True\<rparr>"]
  by (simp add: computeMitigationAttenuation_def)

text \<open>
  C10. For every mitigation state the attenuation is at most 0.30, the value it takes
  with all three flags set; so it stays strictly below the cap 0.35, and the capping
  \<^verbatim>\<open>Math.min\<close> never changes the sum of the contributions.
\<close>

theorem attenuation_cap_never_attained:
  "computeMitigationAttenuation m \<le> 0.30
   \<and> computeMitigationAttenuation m < 0.35
   \<and> computeMitigationAttenuation m = flag_sum m
   \<and> computeMitigationAttenuation \<lparr>greenRoofs = True, permeable = True, barriers = True\<rparr> = 0.30"
  using flag_sum_bounds [of m] by (simp add: attenuation_eq_flag_sum) (simp add: flag_sum_def)

section \<open>Properties of the depth-damage curve\<close>

lemma ratio_unfold: "depthDamageRatio d = min 0.95 (1 - exp (- 0.8 * max 0 d))"
  by (simp add: depthDamageRatio_def Let_def mult.commute)

lemma ratio_mono: "d1 \<le> d2 \<Longrightarrow> depthDamageRatio d1 \<le> depthDamageRatio d2"
  unfolding ratio_unfold by (intro min.mono order_refl) simp

lemma ratio_nonneg: "0 \<le> depthDamageRatio d"
  unfolding ratio_unfold by simp

lemma ratio_le_cap: "depthDamageRatio d \<le> 0.95"
  unfolding ratio_unfold by (rule min.cobounded1)

lemma ratio_zero: "depthDamageRatio 0 = 0"
  unfolding ratio_unfold by simp



lemma ratio_strict:
  assumes "0 \<le> d1" "d1 < d2" "depthDamageRatio d1 < 0.95"
  shows "depthDamageRatio d1 < depthDamageRatio d2"
proof -
  have lt: "1 - exp (- 0.8 * max 0 d1) < 1 - exp (- 0.8 * max 0 d2)"
    using assms(1,2) by simp
  have "depthDamageRatio d1 = 1 - exp (- 0.8 * max 0 d1)"
    using assms(3) unfolding ratio_unfold by (simp add: min_def split: if_splits)
  then show ?thesis using lt assms(3) unfolding ratio_unfold by (simp add: min_def)
qed

lemma ratio_cap_iff: "depthDamageRatio d = 0.95 \<longleftrightarrow> ln 20 / 0.8 \<le> d"
proof -
  have pos: "0 < ln (20::real)" by simp
  have "depthDamageRatio d = 0.95 \<longleftrightarrow> exp (- 0.8 * max 0 d) \<le> 0.05"
    unfolding ratio_unfold by (auto simp: min_def)
  also have "\<dots> \<longleftrightarrow> - 0.8 * max 0 d \<le> ln 0.05"
    by (subst ln_ge_iff) simp_all
  also have "ln (0.05::real) = - ln 20"
    using ln_inverse [of "20::real"] by simp
  also have "- 0.8 * max 0 d \<le> - ln 20 \<longleftrightarrow> ln 20 / 0.8 \<le> d"
  proof (cases "0 \<le> d")
    case True
    then show ?thesis by (simp add: max_def field_simps)
  next
    case False
    then have "- 0.8 * max 0 d = 0" by simp
    then have a: "\<not> - 0.8 * max 0 d \<le> - ln 20" using pos by linarith
    have "0 < ln 20 / (0.8::real)" using pos by (intro divide_pos_pos) simp_all
    then have b: "\<not> ln 20 / 0.8 \<le> d" using False by linarith
    from a b show ?thesis by blast
  qed
  finally show ?thesis .
qed

text \<open>
  C8. For every depth \<open>d\<close> the damage ratio is \<open>1 - e\<^sup>-\<^sup>0\<^sup>.\<^sup>8\<^sup>\<cdot>\<^sup>m\<^sup>a\<^sup>x\<^sup>(\<^sup>0\<^sup>,\<^sup>d\<^sup>)\<close> capped at 0.95; it is 0 at
  depth 0, lies between 0 and 0.95, and is non-decreasing in the depth.
\<close>

theorem damageRatio_formula_bounds_mono:
  "depthDamageRatio d = min 0.95 (1 - exp (- 0.8 * max 0 d))
   \<and> depthDamageRatio 0 = 0
   \<and> 0 \<le> depthDamageRatio d \<and> depthDamageRatio d \<le> 0.95
   \<and> (d1 \<le> d2 \<longrightarrow> depthDamageRatio d1 \<le> depthDamageRatio d2)"
  using ratio_unfold [of d] ratio_zero ratio_nonneg [of d] ratio_le_cap [of d]
    ratio_mono [of d1 d2]
  by blast

theorem damageRatio_formula_bounds_mono_witness:
  "(1::real) \<le> 3 \<and> depthDamageRatio 1 \<le> depthDamageRatio 3 \<and> depthDamageRatio 0 = 0"
  using damageRatio_formula_bounds_mono [of 1 1 3] by simp


text \<open>\<open>e\<^sup>2\<^sup>.\<^sup>8\<close> is below 20: the bound \<open>e\<^sup>x \<le> 1 + x + x\<^sup>2\<close> at \<open>7/80\<close>, squared five times.\<close>

lemma square_bound: "0 \<le> a \<Longrightarrow> a \<le> b \<Longrightarrow> b * b \<le> c \<Longrightarrow> a\<^sup>2 \<le> (c :: real)"
  unfolding power2_eq_square by (rule order_trans [OF mult_mono]) simp_all

lemma exp_14_5: "exp (14 / 5 :: real) < 20"
proof -
  define y :: real where "y = exp (7 / 80)"
  have y0: "0 \<le> y" by (simp add: y_def)
  have "y \<le> 1 + 7 / 80 + (7 / 80)\<^sup>2"
    unfolding y_def by (rule exp_bound) simp_all
  then have y1: "y \<le> 7009 / 6400" by (simp add: power2_eq_square)
  have y2: "y\<^sup>2 \<le> 6 / 5" by (rule square_bound [OF y0 y1]) simp
  have "(y\<^sup>2)\<^sup>2 \<le> 36 / 25" by (rule square_bound [OF _ y2]) simp_all
  then have y4: "y ^ 4 \<le> 36 / 25" by simp
  have "(y ^ 4)\<^sup>2 \<le> 21 / 10" by (rule square_bound [OF _ y4]) (simp_all add: y0)
  then have y8: "y ^ 8 \<le> 21 / 10" by simp
  have "(y ^ 8)\<^sup>2 \<le> 441 / 100" by (rule square_bound [OF _ y8]) (simp_all add: y0)
  then have y16: "y ^ 16 \<le> 441 / 100" by simp
  have "(y ^ 16)\<^sup>2 \<le> 194481 / 10000" by (rule square_bound [OF _ y16]) (simp_all add: y0)
  then have y32: "y ^ 32 < 20" by simp
  have "exp (14 / 5 :: real) = exp (of_nat 32 * (7 / 80))" by simp
  also have "\<dots> = y ^ 32" unfolding y_def by (rule exp_of_nat_mult)
  finally show ?thesis using y32 by simp
qed

lemma ratio_below_cap: assumes "d \<le> 3.5" shows "depthDamageRatio d < 0.95"
proof -
  have "exp (14 / 5 :: real) < exp (ln 20)" using exp_14_5 by simp
  then have "14 / 5 < ln (20 :: real)" by (simp only: exp_less_cancel_iff)
  then have "d < ln 20 / 0.8" using assms by (simp add: field_simps)
  then have "depthDamageRatio d \<noteq> 0.95" using ratio_cap_iff [of d] by simp
  then show ?thesis using ratio_le_cap [of d] by simp
qed




section \<open>Properties of the depth\<close>

lemma hypot_nonneg: "0 \<le> hypot a b"
  by (simp add: hypot_def)

lemma hypot_zero2: "hypot a 0 = \<bar>a\<bar>"
  by (simp add: hypot_def)

text \<open>With a finite running minimum the loop folds \<open>min\<close> over the vertex distances.\<close>

lemma minDistLoop_Some:
  "minDistLoop point cs (Some a) = Some (fold min (map (vertexDistance point) cs) a)"
proof (induction cs arbitrary: a)
  case Nil
  show ?case by simp
next
  case (Cons c cs)
  obtain lng lat where c: "c = (lng, lat)" by (cases c)
  have "(if vertexDistance point c < a then vertexDistance point c else a)
          = min (vertexDistance point c) a"
    by (simp add: min_def)
  then show ?case
    by (simp add: c Let_def Cons.IH vertexDistance_def if_distrib [of Some, symmetric])
qed

lemma minDistLoop_None:
  "minDistLoop point (c # cs) None = Some (Min (set (map (vertexDistance point) (c # cs))))"
proof -
  obtain lng lat where c: "c = (lng, lat)" by (cases c)
  have "minDistLoop point (c # cs) None = minDistLoop point cs (Some (vertexDistance point c))"
    by (simp add: c vertexDistance_def)
  also have "\<dots> = Some (fold min (map (vertexDistance point) cs) (vertexDistance point c))"
    by (rule minDistLoop_Some)
  also have "fold min (map (vertexDistance point) cs) (vertexDistance point c)
               = Min (set (map (vertexDistance point) (c # cs)))"
    using Min.set_eq_fold [of "vertexDistance point c" "map (vertexDistance point) cs"]
    by simp
  finally show ?thesis .
qed

lemma minDistLoop_centerline:
  "minDistLoop point centerline None = Some (nearestVertexDistance point)"
  unfolding nearestVertexDistance_def centerline_def by (rule minDistLoop_None)

lemma nearestVertexDistance_nonneg: "0 \<le> nearestVertexDistance point"
  unfolding nearestVertexDistance_def
  by (subst Min_ge_iff) (auto simp: centerline_def vertexDistance_def hypot_nonneg)

lemma depthAtPoint_unfold:
  "depthAtPoint point levelCm m =
     max 0 (levelCm * (1 - computeMitigationAttenuation m) / 100
              - nearestVertexDistance point * 200)"
  by (simp add: depthAtPoint_def Let_def minDistLoop_centerline)

text \<open>
  C1, as the spec states it, fails: the distance the code uses is the distance to the
  nearest of the four vertices, not to the polyline through them. The point at latitude
  45.7875, longitude 4.835 is the midpoint of the first segment of the centerline, at
  distance 0 from the polyline; the loop gives it the distance 0.0075, and at level
  120 cm with no mitigation its depth is 0 where the distance to the polyline gives 1.2 m.
\<close>

theorem depthAt_polyline_counterexample:
  "minDistLoop (45.7875, 4.835) centerline None = Some 0.0075
   \<and> vertexDistance (45.7875, 4.835) (along (centerline ! 0) (centerline ! 1) (1 / 2)) = 0
   \<and> depthAtPoint (45.7875, 4.835) 120
        \<lparr>greenRoofs = False, permeable = False, barriers = False\<rparr> = 0"
proof -
  have d: "minDistLoop (45.7875, 4.835) centerline None = Some 0.0075"
    by (simp add: centerline_def hypot_zero2 Let_def)
  have "along (centerline ! 0) (centerline ! 1) (1 / 2) = (4.835, 45.7875)"
    by (simp add: centerline_def along_def)
  then have v:
    "vertexDistance (45.7875, 4.835) (along (centerline ! 0) (centerline ! 1) (1 / 2)) = 0"
    by (simp add: vertexDistance_def hypot_zero2)
  have n: "nearestVertexDistance (45.7875, 4.835) = 0.0075"
    using d unfolding minDistLoop_centerline by simp
  have "depthAtPoint (45.7875, 4.835) 120
          \<lparr>greenRoofs = False, permeable = False, barriers = False\<rparr> = 0"
    unfolding depthAtPoint_unfold n by (simp add: computeMitigationAttenuation_def)
  with d v show ?thesis by blast
qed

text \<open>
  C1, amended. For every point, level and mitigation state, \<^verbatim>\<open>depthAtPoint\<close> takes the
  attenuated level (the level times one minus the attenuation), the least Euclidean
  distance from the point to the four vertices of the centerline, computes the attenuated
  level over 100 minus 200 times that distance, and floors it at zero; the result is
  never negative.
\<close>

theorem depthAt_nearest_vertex_nonneg:
  "depthAtPoint point levelCm m =
     max 0 (levelCm * (1 - computeMitigationAttenuation m) / 100
              - Min (set (map (vertexDistance point) centerline)) * 200)
   \<and> 0 \<le> depthAtPoint point levelCm m"
  unfolding depthAtPoint_unfold nearestVertexDistance_def by simp

section \<open>Properties of the aggregate pass\<close>

lemma renderLoop_counts:
  "renderLoop bs levelCm m k =
     \<lparr>affectedCount = affectedCount k + length (filter (affected_spec levelCm m) bs),
      criticalCount = criticalCount k
        + length (filter (\<lambda>b. affected_spec levelCm m b \<and> isCritical b) bs),
      totalDamage = totalDamage k + sum_list (map (damage_spec levelCm m) bs)\<rparr>"
proof (induction bs arbitrary: k)
  case Nil
  show ?case by simp
next
  case (Cons b bs)
  show ?case
    by (simp add: Cons.IH Let_def affected_spec_def damage_spec_def)
qed

text \<open>
  C6. The aggregate pass computes the depth of every record, counts a record as
  affected exactly when its depth exceeds 0.05 m, charges it its replacement cost times
  the damage ratio of its depth when it is affected and 0 otherwise, and returns the sum
  of the damages, the number of affected records and the number of records that are
  affected and critical.
\<close>

theorem renderBuildings_aggregates:
  "renderBuildings bs levelCm m =
     \<lparr>affectedCount = length (filter (affected_spec levelCm m) bs),
      criticalCount = length (filter (\<lambda>b. affected_spec levelCm m b \<and> isCritical b) bs),
      totalDamage = sum_list (map (damage_spec levelCm m) bs)\<rparr>"
  by (simp add: renderBuildings_def renderLoop_counts)

lemma totalDamage_render:
  "totalDamage (renderBuildings bs levelCm m) = sum_list (map (damage_spec levelCm m) bs)"
  by (simp add: renderBuildings_def renderLoop_counts)

text \<open>More attenuation never gives more depth, at any level (a negative level gives depth 0).\<close>

lemma depthAtPoint_antimono:
  assumes "computeMitigationAttenuation m \<le> computeMitigationAttenuation m'"
  shows "depthAtPoint point levelCm m' \<le> depthAtPoint point levelCm m"
proof (cases "0 \<le> levelCm")
  case True
  have "levelCm * (1 - computeMitigationAttenuation m')
          \<le> levelCm * (1 - computeMitigationAttenuation m)"
    using assms True by (intro mult_left_mono) simp_all
  then show ?thesis unfolding depthAtPoint_unfold by (intro max.mono order_refl) simp
next
  case False
  have "0 < 1 - computeMitigationAttenuation m'"
    using flag_sum_bounds [of m'] by (simp add: attenuation_eq_flag_sum)
  then have "levelCm * (1 - computeMitigationAttenuation m') < 0"
    using False by (simp add: mult_neg_pos)
  then have "levelCm * (1 - computeMitigationAttenuation m') / 100
          - nearestVertexDistance point * 200 \<le> 0"
    using nearestVertexDistance_nonneg [of point] by simp
  then have "depthAtPoint point levelCm m' = 0"
    unfolding depthAtPoint_unfold by simp
  then show ?thesis unfolding depthAtPoint_unfold by simp
qed

lemma damage_spec_antimono:
  assumes att: "computeMitigationAttenuation m \<le> computeMitigationAttenuation m'"
    and cost: "0 \<le> replacementCost b"
  shows "damage_spec levelCm m' b \<le> damage_spec levelCm m b"
proof -
  let ?d' = "depthAtPoint (lat b, lng b) levelCm m'"
  let ?d = "depthAtPoint (lat b, lng b) levelCm m"
  have d: "?d' \<le> ?d" by (rule depthAtPoint_antimono [OF att])
  show ?thesis
  proof (cases "affected_spec levelCm m' b")
    case True
    then have "affected_spec levelCm m b" using d by (simp add: affected_spec_def)
    moreover have "replacementCost b * depthDamageRatio ?d'
                     \<le> replacementCost b * depthDamageRatio ?d"
      by (rule mult_left_mono [OF ratio_mono [OF d] cost])
    ultimately show ?thesis using True by (simp add: damage_spec_def)
  next
    case False
    have "0 \<le> replacementCost b * depthDamageRatio ?d"
      by (rule mult_nonneg_nonneg [OF cost ratio_nonneg])
    then show ?thesis using False by (simp add: damage_spec_def)
  qed
qed

lemma totalDamage_antimono:
  assumes att: "computeMitigationAttenuation m \<le> computeMitigationAttenuation m'"
    and cost: "\<forall>b \<in> set bs. 0 \<le> replacementCost b"
  shows "totalDamage (renderBuildings bs levelCm m')
           \<le> totalDamage (renderBuildings bs levelCm m)"
  unfolding totalDamage_render
  using cost by (intro sum_list_mono damage_spec_antimono [OF att]) simp

text \<open>At a level of 5 cm or less no depth exceeds 0.05 m, so nothing is damaged.\<close>

lemma no_damage_low_level:
  assumes "levelCm \<le> 5"
  shows "totalDamage (renderBuildings bs levelCm m) = 0"
proof -
  have "damage_spec levelCm m b = 0" for b
  proof -
    have a: "0 < 1 - computeMitigationAttenuation m" "1 - computeMitigationAttenuation m \<le> 1"
      using flag_sum_bounds [of m] by (simp_all add: attenuation_eq_flag_sum)
    have "levelCm * (1 - computeMitigationAttenuation m) \<le> 5"
    proof (cases "0 \<le> levelCm")
      case True
      then have "levelCm * (1 - computeMitigationAttenuation m) \<le> levelCm * 1"
        using a by (intro mult_left_mono) simp_all
      then show ?thesis using assms by simp
    next
      case False
      then have "levelCm * (1 - computeMitigationAttenuation m) < 0"
        using a by (simp add: mult_neg_pos)
      then show ?thesis by simp
    qed
    then have "levelCm * (1 - computeMitigationAttenuation m) / 100
                 - nearestVertexDistance (lat b, lng b) * 200 \<le> 1 / 20"
      using nearestVertexDistance_nonneg [of "(lat b, lng b)"] by linarith
    then have "depthAtPoint (lat b, lng b) levelCm m \<le> 0.05"
      unfolding depthAtPoint_unfold by (intro max.boundedI) simp_all
    then show ?thesis by (simp add: damage_spec_def affected_spec_def)
  qed
  then have "damage_spec levelCm m = (\<lambda>b. 0)" by (intro ext)
  then show ?thesis unfolding totalDamage_render by simp
qed

section \<open>Properties of the generator and the dataset\<close>

lemma rand_counter: "snd (rand t) = t + 0x6D2B79F5"
  by (simp add: rand_def Let_def)

lemma counterAfter_eq: "counterAfter k t = t + k * 0x6D2B79F5"
  unfolding counterAfter_def by (induction k) (simp_all add: rand_counter)

lemma counterAfter_add: "counterAfter k (counterAfter j t) = counterAfter (j + k) t"
  by (simp add: counterAfter_eq algebra_simps)

lemma rand_draw: "\<exists>w :: 32 word. fst (rand t) = real (unat w) / 4294967296"
  unfolding rand_def Let_def fst_conv by (intro exI) (rule refl)

text \<open>Every draw lies in \<open>[0, 1)\<close>.\<close>

lemma rand_range: "0 \<le> fst (rand t) \<and> fst (rand t) < 1"
proof -
  obtain w :: "32 word" where w: "fst (rand t) = real (unat w) / 4294967296"
    using rand_draw by blast
  have "unat w < 4294967296"
    using unsigned_less [of w, where ?'a = nat] by simp
  then have "real (unat w) < 4294967296"
    by (metis of_nat_less_iff of_nat_numeral)
  moreover have "0 \<le> real (unat w)" by (rule of_nat_0_le_iff)
  ultimately show ?thesis unfolding w by simp
qed

text \<open>One record takes four draws, in the order latitude, longitude, cost, criticality.\<close>

lemma makeBuilding_unfold:
  "makeBuilding i t =
     (\<lparr>ident = i + 1,
       lat = fst lyonCenter + (fst (rand t) - 0.5) * 0.05,
       lng = snd lyonCenter + (fst (rand (counterAfter 1 t)) - 0.5) * 0.08,
       replacementCost = 100000 + fst (rand (counterAfter 2 t)) * 900000,
       isCritical = (fst (rand (counterAfter 3 t)) < 0.06)\<rparr>,
      counterAfter 4 t)"
  by (simp add: makeBuilding_def Let_def split_beta rand_counter counterAfter_eq add.commute)

lemma mapBuildings_Cons:
  "mapBuildings (i # is) t =
     (fst (makeBuilding i t) # fst (mapBuildings is (counterAfter 4 t)),
      snd (mapBuildings is (counterAfter 4 t)))"
  by (simp add: split_beta makeBuilding_unfold)

lemma mapBuildings_length: "length (fst (mapBuildings is t)) = length is"
  by (induction "is" arbitrary: t) (simp_all add: mapBuildings_Cons del: mapBuildings.simps(2))

lemma mapBuildings_counter:
  "snd (mapBuildings is t) = counterAfter (4 * length is) t"
  by (induction "is" arbitrary: t)
    (simp_all add: mapBuildings_Cons counterAfter_eq del: mapBuildings.simps(2))

lemma mapBuildings_nth:
  "j < length is \<Longrightarrow>
     fst (mapBuildings is t) ! j = fst (makeBuilding (is ! j) (counterAfter (4 * j) t))"
proof (induction "is" arbitrary: t j)
  case Nil
  then show ?case by simp
next
  case (Cons i "is")
  show ?case
  proof (cases j)
    case 0
    then show ?thesis
      by (simp add: mapBuildings_Cons counterAfter_eq del: mapBuildings.simps(2))
  next
    case (Suc j')
    then have "j' < length is" using Cons.prems by simp
    from Cons.IH [OF this, of "counterAfter 4 t"]
    have "fst (mapBuildings is (counterAfter 4 t)) ! j'
            = fst (makeBuilding (is ! j') (counterAfter (4 * j') (counterAfter 4 t)))" .
    moreover have "counterAfter (4 * j') (counterAfter 4 t) = counterAfter (4 * j) t"
      by (simp add: counterAfter_eq Suc)
    ultimately show ?thesis by (simp add: mapBuildings_Cons Suc del: mapBuildings.simps(2))
  qed
qed

text \<open>Every replacement cost of the dataset lies in \<open>[100000, 1000000)\<close>.\<close>

lemma buildings_cost:
  assumes "b \<in> set (buildings sd)"
  shows "100000 \<le> replacementCost b \<and> replacementCost b < 1000000"
proof -
  from assms obtain i where i: "i < length (buildings sd)" "b = buildings sd ! i"
    by (auto simp: in_set_conv_nth)
  then have "b = fst (makeBuilding i (counterAfter (4 * i) (mulberry32 sd)))"
    using mapBuildings_nth [of i "[0..<400]" "mulberry32 sd"]
    by (simp add: buildings_def buildingsAndCounter_def mapBuildings_length)
  then show ?thesis
    using rand_range [of "counterAfter 2 (counterAfter (4 * i) (mulberry32 sd))"]
    by (simp add: makeBuilding_unfold)
qed

text \<open>
  C3, as the spec states it, fails: a record takes four draws, not three (one for the
  cost and one more for the criticality). For the seed 1337 the generator is left with
  the counter of 1600 calls, which is not the counter of 1200 calls.
\<close>

theorem buildings_draws_counterexample:
  "snd (buildingsAndCounter 1337) = counterAfter (4 * 400) (mulberry32 1337)
   \<and> snd (buildingsAndCounter 1337) \<noteq> counterAfter (3 * 400) (mulberry32 1337)"
  by (simp add: buildingsAndCounter_def mapBuildings_counter counterAfter_eq)

text \<open>
  C3, amended. Building the 400 records consumes the stream of the seed exactly
  \<open>4 \<cdot> 400\<close> times (the generator is left with the counter of \<open>k\<close> calls exactly for
  \<open>k = 1600\<close>), four draws per record in a fixed order: record \<open>i\<close> (counted from 0)
  takes draw \<open>4i\<close> for its latitude jitter, \<open>4i + 1\<close> for its longitude jitter,
  \<open>4i + 2\<close> for its cost and \<open>4i + 3\<close> for its criticality. The dataset is this function
  of the seed.
\<close>

theorem buildings_draws:
  "length (buildings sd) = 400
   \<and> (snd (buildingsAndCounter sd) = counterAfter k (mulberry32 sd) \<longleftrightarrow> k = 4 * 400)
   \<and> (i < 400 \<longrightarrow>
       buildings sd ! i =
         \<lparr>ident = i + 1,
          lat = fst lyonCenter + (draw sd (4 * i) - 0.5) * 0.05,
          lng = snd lyonCenter + (draw sd (4 * i + 1) - 0.5) * 0.08,
          replacementCost = 100000 + draw sd (4 * i + 2) * 900000,
          isCritical = (draw sd (4 * i + 3) < 0.06)\<rparr>)"
proof -
  have len: "length (buildings sd) = 400"
    by (simp add: buildings_def buildingsAndCounter_def mapBuildings_length)
  have cnt: "snd (buildingsAndCounter sd) = counterAfter k (mulberry32 sd) \<longleftrightarrow> k = 4 * 400"
    by (simp add: buildingsAndCounter_def mapBuildings_counter counterAfter_eq)
  have rec: "buildings sd ! i =
         \<lparr>ident = i + 1,
          lat = fst lyonCenter + (draw sd (4 * i) - 0.5) * 0.05,
          lng = snd lyonCenter + (draw sd (4 * i + 1) - 0.5) * 0.08,
          replacementCost = 100000 + draw sd (4 * i + 2) * 900000,
          isCritical = (draw sd (4 * i + 3) < 0.06)\<rparr>" if "i < 400"
  proof -
    have "buildings sd ! i = fst (makeBuilding i (counterAfter (4 * i) (mulberry32 sd)))"
      using that mapBuildings_nth [of i "[0..<400]" "mulberry32 sd"]
      by (simp add: buildings_def buildingsAndCounter_def)
    then show ?thesis
      by (simp add: makeBuilding_unfold draw_def counterAfter_add)
  qed
  from len cnt rec show ?thesis by blast
qed

theorem buildings_draws_witness:
  "(1::nat) < 400
   \<and> snd (buildingsAndCounter 1337) = counterAfter 1600 (mulberry32 1337)
   \<and> buildings 1337 ! 1 =
       \<lparr>ident = 2,
        lat = fst lyonCenter + (draw 1337 4 - 0.5) * 0.05,
        lng = snd lyonCenter + (draw 1337 5 - 0.5) * 0.08,
        replacementCost = 100000 + draw 1337 6 * 900000,
        isCritical = (draw 1337 7 < 0.06)\<rparr>"
  using buildings_draws [of 1337 1600 1] by simp

section \<open>Mitigation and total damage\<close>

text \<open>
  C5, as the spec states it, fails: the total can stay equal away from the cap (which no
  state attains). On the dataset of seed 1337 at a level of 5 cm, setting the green-roofs
  flag leaves the total damage unchanged, while the attenuation is 0.08.
\<close>

theorem toggle_strict_counterexample:
  "\<not> totalDamage (renderBuildings (buildings 1337) 5
          \<lparr>greenRoofs = True, permeable = False, barriers = False\<rparr>)
       < totalDamage (renderBuildings (buildings 1337) 5
          \<lparr>greenRoofs = False, permeable = False, barriers = False\<rparr>)
   \<and> computeMitigationAttenuation \<lparr>greenRoofs = True, permeable = False, barriers = False\<rparr>
       < 0.35"
  by (simp add: no_damage_low_level computeMitigationAttenuation_def)

text \<open>A depth that is positive after more attenuation was strictly larger before.\<close>

lemma depthAtPoint_strict:
  assumes att: "computeMitigationAttenuation m < computeMitigationAttenuation m'"
    and pos: "0 < depthAtPoint point levelCm m'"
  shows "depthAtPoint point levelCm m' < depthAtPoint point levelCm m"
proof -
  let ?k = "nearestVertexDistance point * 200"
  have a': "0 < 1 - computeMitigationAttenuation m'"
    using flag_sum_bounds [of m'] by (simp add: attenuation_eq_flag_sum)
  have d': "depthAtPoint point levelCm m' = levelCm * (1 - computeMitigationAttenuation m') / 100 - ?k"
    using pos unfolding depthAtPoint_unfold by (simp add: max_def split: if_splits)
  have k: "0 \<le> ?k" using nearestVertexDistance_nonneg [of point] by simp
  have "0 < levelCm * (1 - computeMitigationAttenuation m')"
    using pos k unfolding d' by simp
  then have l: "0 < levelCm" using a' by (simp add: zero_less_mult_iff)
  have "levelCm * (1 - computeMitigationAttenuation m')
          < levelCm * (1 - computeMitigationAttenuation m)"
    using att l by (intro mult_strict_left_mono) simp_all
  then have "depthAtPoint point levelCm m'
          < levelCm * (1 - computeMitigationAttenuation m) / 100 - ?k"
    unfolding d' by (simp add: divide_strict_right_mono)
  also have "\<dots> \<le> depthAtPoint point levelCm m"
    unfolding depthAtPoint_unfold by simp
  finally show ?thesis .
qed

lemma damage_spec_strict:
  assumes att: "computeMitigationAttenuation m < computeMitigationAttenuation m'"
    and cost: "0 < replacementCost b"
    and aff: "affected_spec levelCm m' b"
    and cap: "depthDamageRatio (depthAtPoint (lat b, lng b) levelCm m') < 0.95"
  shows "damage_spec levelCm m' b < damage_spec levelCm m b"
proof -
  let ?d' = "depthAtPoint (lat b, lng b) levelCm m'"
  let ?d = "depthAtPoint (lat b, lng b) levelCm m"
  have p: "0 < ?d'" using aff by (simp add: affected_spec_def)
  have d: "?d' < ?d" by (rule depthAtPoint_strict [OF att p])
  have "depthDamageRatio ?d' < depthDamageRatio ?d"
    using p d cap by (intro ratio_strict) simp_all
  then have "replacementCost b * depthDamageRatio ?d' < replacementCost b * depthDamageRatio ?d"
    using cost by (intro mult_strict_left_mono)
  moreover have "affected_spec levelCm m b" using aff d by (simp add: affected_spec_def)
  ultimately show ?thesis using aff by (simp add: damage_spec_def)
qed

lemma sum_list_one_strict:
  fixes f g :: "'a \<Rightarrow> real"
  assumes "\<forall>x \<in> set xs. f x \<le> g x" "x0 \<in> set xs" "f x0 < g x0"
  shows "sum_list (map f xs) < sum_list (map g xs)"
  using assms
proof (induction xs)
  case Nil
  then show ?case by simp
next
  case (Cons x xs)
  show ?case
  proof (cases "f x < g x")
    case True
    have "sum_list (map f xs) \<le> sum_list (map g xs)"
      using Cons.prems(1) by (intro sum_list_mono) simp
    then show ?thesis using True by simp
  next
    case False
    then have "x0 \<in> set xs" using Cons.prems(2,3) by auto
    then have "sum_list (map f xs) < sum_list (map g xs)"
      using Cons.IH Cons.prems by simp
    moreover have "f x \<le> g x" using Cons.prems(1) by simp
    ultimately show ?thesis by simp
  qed
qed

lemma toggle_attenuation:
  assumes "m' = m\<lparr>greenRoofs := True\<rparr> \<or> m' = m\<lparr>permeable := True\<rparr>
             \<or> m' = m\<lparr>barriers := True\<rparr>"
  shows "computeMitigationAttenuation m \<le> computeMitigationAttenuation m'"
    and "m' \<noteq> m \<Longrightarrow> computeMitigationAttenuation m < computeMitigationAttenuation m'"
  using assms unfolding attenuation_eq_flag_sum flag_sum_def
  by (cases m; auto)+

text \<open>
  A record that was affected before the toggle loses damage unless its ratio stays at the
  cap; any other record keeps its damage.
\<close>

lemma ratio_pos: "0 < d \<Longrightarrow> 0 < depthDamageRatio d"
  unfolding ratio_unfold by simp

lemma damage_spec_drop:
  assumes att: "computeMitigationAttenuation m < computeMitigationAttenuation m'"
    and cost: "0 < replacementCost b"
    and aff: "affected_spec levelCm m b"
    and cap: "depthDamageRatio (depthAtPoint (lat b, lng b) levelCm m') < 0.95"
  shows "damage_spec levelCm m' b < damage_spec levelCm m b"
proof (cases "affected_spec levelCm m' b")
  case True
  show ?thesis by (rule damage_spec_strict [OF att cost True cap])
next
  case False
  have "0 < depthAtPoint (lat b, lng b) levelCm m" using aff by (simp add: affected_spec_def)
  then have "0 < replacementCost b * depthDamageRatio (depthAtPoint (lat b, lng b) levelCm m)"
    using cost by (intro mult_pos_pos ratio_pos)
  then show ?thesis using False aff by (simp add: damage_spec_def)
qed

lemma damage_spec_same:
  assumes att: "computeMitigationAttenuation m \<le> computeMitigationAttenuation m'"
    and no: "\<not> (0 < replacementCost b \<and> affected_spec levelCm m b
              \<and> depthDamageRatio (depthAtPoint (lat b, lng b) levelCm m') < 0.95)"
    and cost: "0 \<le> replacementCost b"
  shows "damage_spec levelCm m' b = damage_spec levelCm m b"
proof -
  let ?d' = "depthAtPoint (lat b, lng b) levelCm m'"
  let ?d = "depthAtPoint (lat b, lng b) levelCm m"
  have d: "?d' \<le> ?d" by (rule depthAtPoint_antimono [OF att])
  consider "replacementCost b = 0" | "0 < replacementCost b" "\<not> affected_spec levelCm m b"
    | "0 < replacementCost b" "affected_spec levelCm m b" "\<not> depthDamageRatio ?d' < 0.95"
    using no cost by fastforce
  then show ?thesis
  proof cases
    case 1
    then show ?thesis by (simp add: damage_spec_def)
  next
    case 2
    then have "\<not> affected_spec levelCm m' b" using d by (simp add: affected_spec_def)
    then show ?thesis using 2 by (simp add: damage_spec_def)
  next
    case 3
    have c': "depthDamageRatio ?d' = 0.95" using 3(3) ratio_le_cap [of ?d'] by simp
    have "\<not> ?d' \<le> 3.5" using ratio_below_cap [of ?d'] 3(3) by blast
    then have a': "affected_spec levelCm m' b" by (simp add: affected_spec_def)
    have "depthDamageRatio ?d' \<le> depthDamageRatio ?d" by (rule ratio_mono [OF d])
    then have "depthDamageRatio ?d = 0.95" using c' ratio_le_cap [of ?d] by simp
    then show ?thesis using c' a' 3(2) by (simp add: damage_spec_def)
  qed
qed

lemma totalDamage_strict_iff:
  assumes att: "computeMitigationAttenuation m < computeMitigationAttenuation m'"
    and costs: "\<forall>b \<in> set bs. 0 \<le> replacementCost b"
  shows "totalDamage (renderBuildings bs levelCm m') < totalDamage (renderBuildings bs levelCm m)
     \<longleftrightarrow> (\<exists>b \<in> set bs. 0 < replacementCost b \<and> affected_spec levelCm m b
            \<and> depthDamageRatio (depthAtPoint (lat b, lng b) levelCm m') < 0.95)"
proof
  assume "\<exists>b \<in> set bs. 0 < replacementCost b \<and> affected_spec levelCm m b
            \<and> depthDamageRatio (depthAtPoint (lat b, lng b) levelCm m') < 0.95"
  then obtain b where b: "b \<in> set bs" "0 < replacementCost b" "affected_spec levelCm m b"
      "depthDamageRatio (depthAtPoint (lat b, lng b) levelCm m') < 0.95"
    by blast
  have le: "computeMitigationAttenuation m \<le> computeMitigationAttenuation m'"
    using att by simp
  have "\<forall>x \<in> set bs. damage_spec levelCm m' x \<le> damage_spec levelCm m x"
    using costs damage_spec_antimono [OF le] by blast
  moreover have "damage_spec levelCm m' b < damage_spec levelCm m b"
    by (rule damage_spec_drop [OF att b(2,3,4)])
  ultimately show "totalDamage (renderBuildings bs levelCm m')
      < totalDamage (renderBuildings bs levelCm m)"
    unfolding totalDamage_render using b(1) by (intro sum_list_one_strict)
next
  assume lt: "totalDamage (renderBuildings bs levelCm m')
      < totalDamage (renderBuildings bs levelCm m)"
  show "\<exists>b \<in> set bs. 0 < replacementCost b \<and> affected_spec levelCm m b
            \<and> depthDamageRatio (depthAtPoint (lat b, lng b) levelCm m') < 0.95"
  proof (rule ccontr)
    assume no: "\<not> (\<exists>b \<in> set bs. 0 < replacementCost b \<and> affected_spec levelCm m b
            \<and> depthDamageRatio (depthAtPoint (lat b, lng b) levelCm m') < 0.95)"
    have le: "computeMitigationAttenuation m \<le> computeMitigationAttenuation m'"
      using att by simp
    have "\<forall>b \<in> set bs. damage_spec levelCm m' b = damage_spec levelCm m b"
      using no costs damage_spec_same [OF le] by blast
    then have "map (damage_spec levelCm m') bs = map (damage_spec levelCm m) bs"
      by (intro map_cong refl) blast
    then have "sum_list (map (damage_spec levelCm m') bs)
                 = sum_list (map (damage_spec levelCm m) bs)"
      by (rule arg_cong)
    then show False using lt unfolding totalDamage_render by linarith
  qed
qed

text \<open>
  C5, amended. For every level and every mitigation state, setting any single
  mitigation flag never increases the total damage computed over records of
  non-negative replacement cost (as all records of the dataset are). When the flag was
  not set before, the total strictly decreases exactly when some record of positive cost
  that was affected before the toggle has a damage ratio below the cap 0.95 after it;
  otherwise the total stays equal, as it does at low levels where no record is
  affected. The attenuation cap plays no part.
\<close>

theorem toggle_decreases_damage:
  assumes toggle: "m' = m\<lparr>greenRoofs := True\<rparr> \<or> m' = m\<lparr>permeable := True\<rparr>
             \<or> m' = m\<lparr>barriers := True\<rparr>"
    and costs: "\<forall>b \<in> set bs. 0 \<le> replacementCost b"
  shows "totalDamage (renderBuildings bs levelCm m')
           \<le> totalDamage (renderBuildings bs levelCm m)
     \<and> (m' \<noteq> m \<longrightarrow>
          (totalDamage (renderBuildings bs levelCm m')
              < totalDamage (renderBuildings bs levelCm m)
           \<longleftrightarrow> (\<exists>b \<in> set bs. 0 < replacementCost b \<and> affected_spec levelCm m b
                  \<and> depthDamageRatio (depthAtPoint (lat b, lng b) levelCm m') < 0.95)))"
  using totalDamage_antimono [OF toggle_attenuation(1) [OF toggle] costs]
    totalDamage_strict_iff [OF toggle_attenuation(2) [OF toggle] costs]
  by blast

text \<open>
  On the dataset of seed 1337 at 120 cm the total strictly decreases when green roofs are
  set: record 183 (index 182, built from draws 728 and 729) lies within 0.001 degrees of
  the second vertex of the centerline, so it is affected, and its depth stays below 3.5 m.
\<close>

lemma rand_eval:
  assumes "word_of_nat (t0 + 0x6D2B79F5) = (w :: 32 word)"
    and "(w XOR drop_bit 15 w) * (1 OR w) = r1"
    and "r1 XOR (r1 + (r1 XOR drop_bit 7 r1) * (61 OR r1)) = r2"
    and "unat (r2 XOR drop_bit 14 r2) = n"
  shows "fst (rand t0) = real n / 4294967296"
  unfolding rand_def Let_def fst_conv assms by (rule refl)

lemma draw_728: "draw 1337 728 = 3517207702 / 4294967296"
proof -
  have c: "counterAfter 728 (mulberry32 1337) = 1333379913201"
    by (simp add: counterAfter_eq mulberry32_def)
  have "fst (rand 1333379913201) = real 3517207702 / 4294967296"
    by (rule rand_eval [of _ 3771617254 1315780118 3517387274]) simp_all
  then show ?thesis unfolding draw_def c by simp
qed


lemma buildings_length: "length (buildings sd) = 400"
  by (simp add: buildings_def buildingsAndCounter_def mapBuildings_length)

lemma buildings_position:
  assumes "i < 400"
  shows "lat (buildings sd ! i) = fst lyonCenter + (draw sd (4 * i) - 0.5) * 0.05"
    and "lng (buildings sd ! i) = snd lyonCenter + (draw sd (4 * i + 1) - 0.5) * 0.08"
proof -
  have "buildings sd ! i = fst (makeBuilding i (counterAfter (4 * i) (mulberry32 sd)))"
    using assms mapBuildings_nth [of i "[0..<400]" "mulberry32 sd"]
    by (simp add: buildings_def buildingsAndCounter_def)
  then show "lat (buildings sd ! i) = fst lyonCenter + (draw sd (4 * i) - 0.5) * 0.05"
    and "lng (buildings sd ! i) = snd lyonCenter + (draw sd (4 * i + 1) - 0.5) * 0.08"
    by (simp_all add: makeBuilding_unfold draw_def counterAfter_add)
qed

lemma draw_729: "draw 1337 729 = 2075547862 / 4294967296"
proof -
  have c: "counterAfter 729 (mulberry32 1337) = 1335211479014"
    by (simp add: counterAfter_eq mulberry32_def)
  have "fst (rand 1335211479014) = real 2075547862 / 4294967296"
    by (rule rand_eval [of _ 1308215771 1722986552 2075637256]) simp_all
  then show ?thesis unfolding draw_def c by simp
qed

lemma nearestVertexDistance_le:
  "v \<in> set centerline \<Longrightarrow> nearestVertexDistance point \<le> vertexDistance point v"
  unfolding nearestVertexDistance_def by (intro Min_le) simp_all

lemma hypot_le: "0 \<le> c \<Longrightarrow> a\<^sup>2 + b\<^sup>2 \<le> c\<^sup>2 \<Longrightarrow> hypot a b \<le> c"
  unfolding hypot_def by (rule real_le_lsqrt)

lemma record_183_near:
  "nearestVertexDistance (lat (buildings 1337 ! 182), lng (buildings 1337 ! 182)) \<le> 1 / 1000"
proof -
  have la: "lat (buildings 1337 ! 182) = 45.764043 + (3517207702 / 4294967296 - 0.5) * 0.05"
    using buildings_position(1) [of 182 1337] by (simp add: draw_728 lyonCenter_def)
  have ln: "lng (buildings 1337 ! 182) = 4.835659 + (2075547862 / 4294967296 - 0.5) * 0.08"
    using buildings_position(2) [of 182 1337] by (simp add: draw_729 lyonCenter_def)
  have v: "(4.835, 45.780) \<in> set centerline" by (simp add: centerline_def)
  have "vertexDistance (lat (buildings 1337 ! 182), lng (buildings 1337 ! 182)) (4.835, 45.780)
          \<le> 1 / 1000"
    unfolding vertexDistance_def fst_conv snd_conv la ln
    by (rule hypot_le) (simp_all add: power2_eq_square)
  with nearestVertexDistance_le [OF v] show ?thesis by (rule order_trans)
qed

theorem toggle_decreases_damage_witness:
  "totalDamage (renderBuildings (buildings 1337) 120
      \<lparr>greenRoofs = True, permeable = False, barriers = False\<rparr>)
   < totalDamage (renderBuildings (buildings 1337) 120
      \<lparr>greenRoofs = False, permeable = False, barriers = False\<rparr>)"
proof -
  let ?b = "buildings 1337 ! 182"
  let ?m = "\<lparr>greenRoofs = False, permeable = False, barriers = False\<rparr>"
  let ?m' = "\<lparr>greenRoofs = True, permeable = False, barriers = False\<rparr>"
  let ?n = "nearestVertexDistance (lat ?b, lng ?b)"
  have t: "?m' = ?m\<lparr>greenRoofs := True\<rparr> \<or> ?m' = ?m\<lparr>permeable := True\<rparr>
             \<or> ?m' = ?m\<lparr>barriers := True\<rparr>" by simp
  have c: "\<forall>b \<in> set (buildings 1337). 0 \<le> replacementCost b"
    using buildings_cost [of _ 1337] by fastforce
  have mem: "?b \<in> set (buildings 1337)" by (simp add: buildings_length)
  have pos: "0 < replacementCost ?b" using buildings_cost [OF mem] by simp
  have n: "0 \<le> ?n" "?n \<le> 1 / 1000"
    by (rule nearestVertexDistance_nonneg, rule record_183_near)
  have att: "computeMitigationAttenuation ?m = 0" "computeMitigationAttenuation ?m' = 2 / 25"
    by (simp_all add: computeMitigationAttenuation_def)
  have "1 \<le> depthAtPoint (lat ?b, lng ?b) 120 ?m"
    unfolding depthAtPoint_unfold att using n(2) by (simp add: max_def)
  then have a: "affected_spec 120 ?m ?b" by (simp add: affected_spec_def)
  have "depthAtPoint (lat ?b, lng ?b) 120 ?m' \<le> 3.5"
    unfolding depthAtPoint_unfold att using n(1) by (simp add: max_def)
  then have r: "depthDamageRatio (depthAtPoint (lat ?b, lng ?b) 120 ?m') < 0.95"
    by (rule ratio_below_cap)
  show ?thesis using toggle_decreases_damage [OF t c, of 120] mem pos a r by auto
qed


section \<open>Properties of the state codec\<close>















lemma splitOn_nonempty: "splitOn c s \<noteq> []"
  by (induction s) (auto split: list.splits)















lemma getParam_None: "getParam ps name = None \<longleftrightarrow> name \<notin> fst ` set ps"
  by (induction ps) (auto simp: image_iff split: if_splits)

text \<open>
  C9. When a parameter is absent from the query string (\<^verbatim>\<open>get\<close> returns \<^verbatim>\<open>null\<close>:
  no pair of the query has the name), decoding uses the defaults: level 120, each
  mitigation flag false, seed 1337.
\<close>

theorem readURL_defaults:
  "(getParam (URLSearchParams search) ''level'' = None \<longrightarrow> fst (readURL search) = 120)
   \<and> (getParam (URLSearchParams search) ''gr'' = None
        \<longrightarrow> \<not> greenRoofs (snd (readURL search)))
   \<and> (getParam (URLSearchParams search) ''pp'' = None
        \<longrightarrow> \<not> permeable (snd (readURL search)))
   \<and> (getParam (URLSearchParams search) ''tb'' = None
        \<longrightarrow> \<not> barriers (snd (readURL search)))
   \<and> (getParam (URLSearchParams search) ''seed'' = None \<longrightarrow> seedConst search = 1337)"
  by (simp add: readURL_def seedConst_def Let_def)

theorem readURL_defaults_witness:
  "getParam (URLSearchParams ''?gr=1'') ''level'' = None
   \<and> getParam (URLSearchParams ''?gr=1'') ''pp'' = None
   \<and> getParam (URLSearchParams ''?gr=1'') ''tb'' = None
   \<and> getParam (URLSearchParams ''?gr=1'') ''seed'' = None
   \<and> fst (readURL ''?gr=1'') = 120
   \<and> \<not> permeable (snd (readURL ''?gr=1''))
   \<and> \<not> barriers (snd (readURL ''?gr=1''))
   \<and> seedConst ''?gr=1'' = 1337"
proof -
  have p: "URLSearchParams ''?gr=1'' = [(''gr'', ''1'')]"
    by (simp add: URLSearchParams_def parsePair_def urldecode_def)
  show ?thesis using readURL_defaults [of "''?gr=1''"] by (simp add: p)
qed

text \<open>
  Neither decoded number is ever 0: \<^verbatim>\<open>|| 120\<close> and \<^verbatim>\<open>|| 1337\<close> replace it. So the seed
  the program holds is never 0, and \<^verbatim>\<open>if (seed)\<close> in \<^verbatim>\<open>syncURL\<close> always writes it.
\<close>

lemma orDefault_nonzero: "d \<noteq> 0 \<Longrightarrow> orDefault x d \<noteq> 0"
  by (cases x) auto


lemma readURL_level_nonzero: "fst (readURL search) \<noteq> 0"
  by (simp add: readURL_def Let_def orDefault_nonzero)



end
